theory Spec2Isabelle
  imports Main
begin

section \<open>Rotary-dial decoder (code.py): data model\<close>

text \<open>
  The program polls three digital inputs and drives one LED and one USB keyboard.
  A \<open>sample\<close> holds the levels of the three input lines at the moment of one read
  (\<open>oOffHook.value\<close>, \<open>oDialActive.value\<close>, \<open>oDigitPulse.value\<close>); each read of the
  program looks at one of the three fields. A trace is the list of samples met by
  the successive reads of the program, in program order. The calls
  \<open>time.sleep\<close> and \<open>print\<close> carry no value and are left out.
\<close>

record sample =
  hook_line :: bool
  dial_line :: bool
  pulse_line :: bool

text \<open>Calls made on the keyboard object: \<open>kbd.send(k)\<close> and \<open>kbd.release_all()\<close>.\<close>

datatype hid_call = Send int | ReleaseAll

text \<open>
  Control locations: one for every line of code.py at which an input is read.
  \<^item> \<open>L122\<close>: \<open>offHook = hookState()\<close> at the top of \<open>while True\<close>;
  \<^item> \<open>L126\<close>: \<open>offHook = hookState()\<close> inside \<open>while (not offHook)\<close>;
  \<^item> \<open>L130\<close>: \<open>dialActive = oDialActive.value\<close> before the waiting loop;
  \<^item> \<open>L132\<close>: \<open>dialActive = oDialActive.value\<close> inside \<open>while (not dialActive)\<close>;
  \<^item> \<open>L134\<close>: \<open>offHook = hookState()\<close> inside \<open>while (not dialActive)\<close>;
  \<^item> \<open>L139\<close>: \<open>digitPulse = oDigitPulse.value\<close> at the top of \<open>while (dialActive)\<close>;
  \<^item> \<open>L144\<close>: \<open>digitPulse = oDigitPulse.value\<close> inside \<open>while (not digitPulse)\<close>;
  \<^item> \<open>L146\<close>: \<open>dialActive = oDialActive.value\<close> inside \<open>while (dialActive)\<close>;
  \<^item> \<open>L155\<close>: \<open>offHook = hookState()\<close> at the end of \<open>while (dialActive)\<close>.
\<close>

datatype loc = L122 | L126 | L130 | L132 | L134 | L139 | L144 | L146 | L155

text \<open>
  The global variables of code.py (lines 72 to 76), the value last written to
  \<open>oStatusLed.value\<close>, and the calls made on \<open>kbd\<close> so far, oldest first.
  The flags start as the integer 0 and later hold booleans; only their truth value
  is ever used, so they are booleans here. Python integers are unbounded: \<open>int\<close>.
\<close>

record state =
  pc :: loc
  dialActive :: bool
  digitPulse :: bool
  offHook :: bool
  digitCount :: int
  numberToReturn :: int
  statusLed :: bool
  kbd :: "hid_call list"

definition init :: state where
  "init = \<lparr>pc = L122, dialActive = False, digitPulse = False, offHook = False,
           digitCount = 0, numberToReturn = 0, statusLed = False, kbd = []\<rparr>"

section \<open>The program\<close>

text \<open>Lines 109 to 113: read the hook line, copy it to the LED, return it.\<close>

definition hookState :: "sample \<Rightarrow> state \<Rightarrow> bool \<times> state" where
  "hookState smp s = (let LoffHook = hook_line smp in (LoffHook, s\<lparr>statusLed := LoffHook\<rparr>))"

text \<open>Lines 148 to 153: the body of \<open>if (not dialActive)\<close> in the dialing loop.\<close>

definition emit :: "state \<Rightarrow> state" where
  "emit s = (let s1 = s\<lparr>numberToReturn := digitCount s\<rparr>
             in s1\<lparr>kbd := kbd s1 @ [Send (numberToReturn s1 + 0x1d), ReleaseAll]\<rparr>)"

text \<open>
  The loop tests, each followed by the code up to the next read.
  Line 138, \<open>while (dialActive)\<close>: enter the body, or leave the loop, which ends the
  body of \<open>while True\<close>.
\<close>

definition dialing_test :: "state \<Rightarrow> state" where
  "dialing_test s = (if dialActive s then s\<lparr>pc := L139\<rparr> else s\<lparr>pc := L122\<rparr>)"

text \<open>Line 131, \<open>while (not dialActive)\<close>: enter the body, or fall through to line 138.\<close>

definition waiting_test :: "state \<Rightarrow> state" where
  "waiting_test s = (if \<not> dialActive s then s\<lparr>pc := L132\<rparr> else dialing_test s)"

text \<open>
  Line 125, \<open>while (not offHook)\<close>: enter the body, or fall through to line 129,
  \<open>digitCount = 0\<close>, and the read of line 130.
\<close>

definition idle_test :: "state \<Rightarrow> state" where
  "idle_test s = (if \<not> offHook s then s\<lparr>pc := L126\<rparr> else s\<lparr>digitCount := 0, pc := L130\<rparr>)"

text \<open>Line 143, \<open>while (not digitPulse)\<close>: enter the body, or fall through to line 146.\<close>

definition busy_test :: "state \<Rightarrow> state" where
  "busy_test s = (if \<not> digitPulse s then s\<lparr>pc := L144\<rparr> else s\<lparr>pc := L146\<rparr>)"

text \<open>
  One step: the read at the current location, then the code up to the next read.
  \<open>break\<close> at line 135 leaves the waiting loop only, so control goes on to the test of
  line 138 with the value of \<open>dialActive\<close> read at line 132. \<open>break\<close> at line 156 leaves
  the dialing loop, the last statement of the body of \<open>while True\<close>.
\<close>

definition step :: "sample \<Rightarrow> state \<Rightarrow> state" where
  "step smp s = (case pc s of
      L122 \<Rightarrow> (case hookState smp s of
                 (v, s1) \<Rightarrow> idle_test (s1\<lparr>offHook := v, statusLed := v\<rparr>))
    | L126 \<Rightarrow> (case hookState smp s of
                 (v, s1) \<Rightarrow> idle_test (s1\<lparr>offHook := v\<rparr>))
    | L130 \<Rightarrow> waiting_test (s\<lparr>dialActive := dial_line smp\<rparr>)
    | L132 \<Rightarrow> s\<lparr>dialActive := dial_line smp, pc := L134\<rparr>
    | L134 \<Rightarrow> (case hookState smp s of
                 (v, s1) \<Rightarrow> (let s2 = s1\<lparr>offHook := v\<rparr>
                             in if \<not> offHook s2 then dialing_test s2 else waiting_test s2))
    | L139 \<Rightarrow> (let s1 = s\<lparr>digitPulse := pulse_line smp\<rparr>
               in if \<not> digitPulse s1 then busy_test (s1\<lparr>digitCount := digitCount s1 + 1\<rparr>)
                  else s1\<lparr>pc := L146\<rparr>)
    | L144 \<Rightarrow> busy_test (s\<lparr>digitPulse := pulse_line smp\<rparr>)
    | L146 \<Rightarrow> (let s1 = s\<lparr>dialActive := dial_line smp\<rparr>;
                   s2 = (if \<not> dialActive s1 then emit s1 else s1)
               in s2\<lparr>pc := L155\<rparr>)
    | L155 \<Rightarrow> (case hookState smp s of
                 (v, s1) \<Rightarrow> (let s2 = s1\<lparr>offHook := v\<rparr>
                             in if \<not> offHook s2 then s2\<lparr>pc := L122\<rparr> else dialing_test s2)))"

text \<open>Running the program over a trace of samples, one read per sample.\<close>

fun run :: "sample list \<Rightarrow> state \<Rightarrow> state" where
  "run [] s = s"
| "run (smp # tr) s = run tr (step smp s)"

text \<open>The locations whose read is a call of \<open>hookState\<close>.\<close>

fun reads_hook :: "loc \<Rightarrow> bool" where
  "reads_hook L122 = True"
| "reads_hook L126 = True"
| "reads_hook L134 = True"
| "reads_hook L155 = True"
| "reads_hook _ = False"

text \<open>
  Modelled from the spec: the keycode table of \<open>adafruit_hid.keycode\<close> is not part of
  the sources. It is the keyboard page of the USB HID usage tables: codes 0x04 to 0x1d
  are the letters a to z, 0x1e to 0x26 the digits 1 to 9, and 0x27 the digit 0 (the
  comment of line 152: 0 is the tenth value of the digit sequence).
\<close>

definition keycode_char :: "int \<Rightarrow> char option" where
  "keycode_char k = (if 0x04 \<le> k \<and> k \<le> 0x27
     then Some (''abcdefghijklmnopqrstuvwxyz1234567890'' ! nat (k - 0x04)) else None)"

definition keycode_digit :: "int \<Rightarrow> int option" where
  "keycode_digit k = (if 0x1e \<le> k \<and> k \<le> 0x26 then Some (k - 0x1d)
                      else if k = 0x27 then Some 0 else None)"

section \<open>Shapes of traces\<close>

text \<open>
  The samples met by the reads of lines 139 and 144 during one pass of the dialing
  loop: the last of them is high, every earlier one is low. A single high sample is a
  pass without a pulse; otherwise the first sample is the falling edge seen at line
  139 and the rest is what the wait of lines 143 and 144 reads.
\<close>

definition pulse_part_ok :: "sample list \<Rightarrow> bool" where
  "pulse_part_ok ps = (ps \<noteq> [] \<and> pulse_line (last ps) \<and> (\<forall>x \<in> set (butlast ps). \<not> pulse_line x))"

text \<open>
  One pass of the dialing loop (lines 139 to 156): the samples of the pulse reads,
  the sample of the dial read of line 146, the sample of the hook read of line 155.
\<close>

record pass =
  pulse_part :: "sample list"
  dial_part :: sample
  hook_part :: sample

definition pass_samples :: "pass \<Rightarrow> sample list" where
  "pass_samples p = pulse_part p @ [dial_part p, hook_part p]"

definition pass_pulses :: "pass \<Rightarrow> int" where
  "pass_pulses p = (if pulse_line (hd (pulse_part p)) then 0 else 1)"

definition pulses :: "pass list \<Rightarrow> int" where
  "pulses ps = sum_list (map pass_pulses ps)"

text \<open>
  A completed rotation with the handset off the hook: every hook sample is off-hook,
  the dial line is active at every pass but the last and inactive at the last.
\<close>

definition rotation_ok :: "pass list \<Rightarrow> bool" where
  "rotation_ok ps = (ps \<noteq> []
     \<and> (\<forall>p \<in> set ps. pulse_part_ok (pulse_part p) \<and> hook_line (hook_part p))
     \<and> (\<forall>p \<in> set (butlast ps). dial_line (dial_part p))
     \<and> \<not> dial_line (dial_part (last ps)))"

definition rotation_samples :: "pass list \<Rightarrow> sample list" where
  "rotation_samples ps = concat (map pass_samples ps)"

text \<open>
  One turn of \<open>while True\<close> with the handset off the hook: the hook sample of line 122,
  the dial sample of line 130, the dial and hook samples of each pass of the waiting
  loop (lines 132 and 134), and the passes of the dialing loop.
\<close>

record cycle =
  top :: sample
  first_dial :: sample
  waits :: "(sample \<times> sample) list"
  passes :: "pass list"

definition waits_ok :: "sample \<Rightarrow> (sample \<times> sample) list \<Rightarrow> bool" where
  "waits_ok d0 ws = (if dial_line d0 then ws = []
     else ws \<noteq> [] \<and> (\<forall>w \<in> set ws. hook_line (snd w))
          \<and> (\<forall>w \<in> set (butlast ws). \<not> dial_line (fst w))
          \<and> dial_line (fst (last ws)))"

definition waits_samples :: "(sample \<times> sample) list \<Rightarrow> sample list" where
  "waits_samples ws = concat (map (\<lambda>w. [fst w, snd w]) ws)"

definition cycle_ok :: "cycle \<Rightarrow> bool" where
  "cycle_ok c = (hook_line (top c) \<and> waits_ok (first_dial c) (waits c) \<and> rotation_ok (passes c))"

definition approach_samples :: "cycle \<Rightarrow> sample list" where
  "approach_samples c = top c # first_dial c # waits_samples (waits c)"

definition cycle_samples :: "cycle \<Rightarrow> sample list" where
  "cycle_samples c = approach_samples c @ rotation_samples (passes c)"

text \<open>The keyboard calls of one completed rotation that counted \<open>n\<close> pulses.\<close>

definition keystroke :: "int \<Rightarrow> hid_call list" where
  "keystroke n = [Send (n + 0x1d), ReleaseAll]"

definition session_samples :: "cycle list \<Rightarrow> sample list" where
  "session_samples cs = concat (map cycle_samples cs)"

section \<open>Example traces\<close>

definition lines :: "bool \<Rightarrow> bool \<Rightarrow> bool \<Rightarrow> sample" where
  "lines h d p = \<lparr>hook_line = h, dial_line = d, pulse_line = p\<rparr>"

text \<open>
  A pass of the dialing loop that meets one pulse (one low sample at line 139, one
  more in the wait of line 144, then a high one), and a pass that meets none; the
  handset is off the hook and \<open>d\<close> is the level of the dial line.
\<close>

definition pulse_pass :: "bool \<Rightarrow> pass" where
  "pulse_pass d = \<lparr>pulse_part = [lines True True False, lines True True False, lines True True True],
                   dial_part = lines True d True, hook_part = lines True d True\<rparr>"

definition quiet_pass :: "bool \<Rightarrow> pass" where
  "quiet_pass d = \<lparr>pulse_part = [lines True True True],
                   dial_part = lines True d True, hook_part = lines True d True\<rparr>"

text \<open>
  Handset off the hook, one pass of the waiting loop with the dial at rest, the dial
  leaves its rest position, \<open>n\<close> pulses, and the dial is back at rest at the pass
  after the last pulse.
\<close>

definition example_cycle :: "nat \<Rightarrow> cycle" where
  "example_cycle n = \<lparr>top = lines True False True, first_dial = lines True False True,
     waits = [(lines True False True, lines True False True),
              (lines True True True, lines True True True)],
     passes = replicate n (pulse_pass True) @ [quiet_pass False]\<rparr>"

section \<open>Stepping lemmas\<close>

lemmas step_defs = step_def hookState_def emit_def dialing_test_def waiting_test_def
  idle_test_def busy_test_def Let_def

lemma run_append: "run (xs @ ys) s = run ys (run xs s)"
  by (induction xs arbitrary: s) simp_all

lemma run_snoc: "run (xs @ [x]) s = step x (run xs s)"
  by (simp add: run_append)

lemma busy_run:
  "pc s = L144 \<Longrightarrow> \<forall>x \<in> set lows. \<not> pulse_line x \<Longrightarrow> pulse_line hi \<Longrightarrow>
   run (lows @ [hi]) s = s\<lparr>pc := L146, digitPulse := True\<rparr>"
  by (induction lows arbitrary: s) (simp_all add: step_defs)

lemma busy_low:
  "pc s = L144 \<Longrightarrow> \<not> pulse_line x \<Longrightarrow> step x s = s\<lparr>digitPulse := False\<rparr>"
  by (cases s) (simp add: step_defs)

lemma busy_stay:
  "pc s = L144 \<Longrightarrow> \<forall>x \<in> set lows. \<not> pulse_line x \<Longrightarrow> lows \<noteq> [] \<Longrightarrow>
   run lows s = s\<lparr>digitPulse := False\<rparr>"
proof (induction lows arbitrary: s)
  case Nil then show ?case by simp
next
  case (Cons x xs)
  show ?case
  proof (cases "xs = []")
    case True with Cons.prems show ?thesis by (simp add: busy_low)
  next
    case False
    have "run (x # xs) s = run xs (s\<lparr>digitPulse := False\<rparr>)"
      using Cons.prems by (simp add: busy_low)
    also have "\<dots> = s\<lparr>digitPulse := False\<rparr>"
      using Cons.IH [of "s\<lparr>digitPulse := False\<rparr>"] Cons.prems False by simp
    finally show ?thesis .
  qed
qed

lemma pulse_part_run:
  assumes "pc s = L139" "pulse_part_ok ps"
  shows "run ps s = s\<lparr>pc := L146, digitPulse := True,
            digitCount := digitCount s + (if pulse_line (hd ps) then 0 else 1)\<rparr>"
proof (cases ps)
  case Nil with assms show ?thesis by (simp add: pulse_part_ok_def)
next
  case (Cons x xs)
  show ?thesis
  proof (cases "xs = []")
    case True
    with Cons assms show ?thesis by (simp add: pulse_part_ok_def step_defs)
  next
    case False
    then obtain lows hi where xs: "xs = lows @ [hi]" by (metis rev_exhaust)
    from assms Cons xs have lo: "\<not> pulse_line x" "\<forall>y \<in> set lows. \<not> pulse_line y" "pulse_line hi"
      by (auto simp: pulse_part_ok_def butlast_append)
    have "step x s = s\<lparr>pc := L144, digitPulse := False, digitCount := digitCount s + 1\<rparr>"
      using assms lo by (simp add: step_defs)
    then show ?thesis using Cons xs lo busy_run [of "step x s" lows hi]
      by simp
  qed
qed


lemma pass_run:
  assumes "pc s = L139" "pulse_part_ok (pulse_part p)" "hook_line (hook_part p)"
  shows "pc (run (pass_samples p) s) = (if dial_line (dial_part p) then L139 else L122)"
    and "digitCount (run (pass_samples p) s) = digitCount s + pass_pulses p"
    and "kbd (run (pass_samples p) s) =
           (if dial_line (dial_part p) then kbd s else kbd s @ keystroke (digitCount s + pass_pulses p))"
  using assms
  by (simp_all add: pass_samples_def run_append pulse_part_run pass_pulses_def keystroke_def step_defs)

lemma rotation_run:
  "pc s = L139 \<Longrightarrow> rotation_ok ps \<Longrightarrow>
   pc (run (rotation_samples ps) s) = L122
   \<and> digitCount (run (rotation_samples ps) s) = digitCount s + pulses ps
   \<and> kbd (run (rotation_samples ps) s) = kbd s @ keystroke (digitCount s + pulses ps)"
proof (induction ps arbitrary: s)
  case Nil
  then show ?case by (simp add: rotation_ok_def)
next
  case (Cons p ps)
  from Cons.prems have p: "pulse_part_ok (pulse_part p)" "hook_line (hook_part p)"
    by (simp_all add: rotation_ok_def)
  note pr = pass_run [OF Cons.prems(1) p]
  show ?case
  proof (cases "ps = []")
    case True
    with Cons.prems have "\<not> dial_line (dial_part p)" by (simp add: rotation_ok_def)
    with True pr show ?thesis
      by (simp add: rotation_samples_def pulses_def)
  next
    case False
    with Cons.prems have d: "dial_line (dial_part p)" and ok: "rotation_ok ps"
      by (simp_all add: rotation_ok_def)
    let ?s = "run (pass_samples p) s"
    from pr d have "pc ?s = L139" by simp
    from Cons.IH [OF this ok] pr d show ?thesis
      by (simp add: rotation_samples_def pulses_def run_append add.assoc)
  qed
qed


lemma wait_pass:
  assumes "pc s = L132" "hook_line h"
  shows "step h (step d s) =
     s\<lparr>pc := (if dial_line d then L139 else L132), dialActive := dial_line d,
        offHook := True, statusLed := True\<rparr>"
  using assms by (cases s) (simp add: step_defs)

lemma waits_run:
  "pc s = L132 \<Longrightarrow> ws \<noteq> [] \<Longrightarrow> \<forall>w \<in> set ws. hook_line (snd w) \<Longrightarrow>
   \<forall>w \<in> set (butlast ws). \<not> dial_line (fst w) \<Longrightarrow> dial_line (fst (last ws)) \<Longrightarrow>
   pc (run (waits_samples ws) s) = L139
   \<and> digitCount (run (waits_samples ws) s) = digitCount s
   \<and> kbd (run (waits_samples ws) s) = kbd s"
proof (induction ws arbitrary: s)
  case Nil
  then show ?case by simp
next
  case (Cons w ws)
  from Cons.prems have h: "hook_line (snd w)" by simp
  note wp = wait_pass [OF Cons.prems(1) h, of "fst w"]
  show ?case
  proof (cases "ws = []")
    case True
    with Cons.prems wp show ?thesis by (simp add: waits_samples_def)
  next
    case False
    with Cons.prems have d: "\<not> dial_line (fst w)" by simp
    let ?s = "step (snd w) (step (fst w) s)"
    from wp d have pc: "pc ?s = L132" by simp
    from Cons.prems False have rest: "\<forall>w \<in> set ws. hook_line (snd w)"
      "\<forall>w \<in> set (butlast ws). \<not> dial_line (fst w)" "dial_line (fst (last ws))"
      by simp_all
    from Cons.IH [OF pc False rest] wp d show ?thesis
      by (simp add: waits_samples_def)
  qed
qed

lemma approach_run:
  assumes "pc s = L122" "hook_line (top c)" "waits_ok (first_dial c) (waits c)"
  shows "pc (run (approach_samples c) s) = L139
   \<and> digitCount (run (approach_samples c) s) = 0
   \<and> kbd (run (approach_samples c) s) = kbd s"
proof (cases "dial_line (first_dial c)")
  case True
  with assms show ?thesis
    by (simp add: approach_samples_def waits_ok_def waits_samples_def step_defs)
next
  case False
  let ?s = "step (first_dial c) (step (top c) s)"
  from assms False have s: "pc ?s = L132" "digitCount ?s = 0" "kbd ?s = kbd s"
    by (simp_all add: step_defs)
  from assms False have "waits c \<noteq> []" "\<forall>w \<in> set (waits c). hook_line (snd w)"
    "\<forall>w \<in> set (butlast (waits c)). \<not> dial_line (fst w)" "dial_line (fst (last (waits c)))"
    by (simp_all add: waits_ok_def)
  from waits_run [OF s(1) this] s show ?thesis
    by (simp add: approach_samples_def)
qed

lemma cycle_run:
  assumes "pc s = L122" "cycle_ok c"
  shows "pc (run (cycle_samples c) s) = L122
   \<and> kbd (run (cycle_samples c) s) = kbd s @ keystroke (pulses (passes c))"
proof -
  from assms have ok: "hook_line (top c)" "waits_ok (first_dial c) (waits c)" "rotation_ok (passes c)"
    by (simp_all add: cycle_ok_def)
  note a = approach_run [OF assms(1) ok(1,2)]
  from a have "pc (run (approach_samples c) s) = L139" by simp
  from rotation_run [OF this ok(3)] a show ?thesis
    by (simp add: cycle_samples_def run_append)
qed

lemma session_run:
  "pc s = L122 \<Longrightarrow> \<forall>c \<in> set cs. cycle_ok c \<Longrightarrow>
   pc (run (concat (map cycle_samples cs)) s) = L122
   \<and> kbd (run (concat (map cycle_samples cs)) s)
       = kbd s @ concat (map (\<lambda>c. keystroke (pulses (passes c))) cs)"
proof (induction cs arbitrary: s)
  case Nil
  then show ?case by simp
next
  case (Cons c cs)
  from Cons.prems have c: "cycle_ok c" and cs: "\<forall>c \<in> set cs. cycle_ok c" by simp_all
  note cr = cycle_run [OF Cons.prems(1) c]
  from cr have "pc (run (cycle_samples c) s) = L122" by simp
  from Cons.IH [OF this cs] cr show ?case
    by (simp add: run_append)
qed

lemma example_cycle_ok: "cycle_ok (example_cycle n)"
  by (simp add: cycle_ok_def example_cycle_def waits_ok_def rotation_ok_def lines_def
      pulse_pass_def quiet_pass_def pulse_part_ok_def butlast_append)

lemma example_cycle_pulses: "pulses (passes (example_cycle n)) = int n"
  by (simp add: example_cycle_def pulses_def pass_pulses_def pulse_pass_def quiet_pass_def
      lines_def sum_list_replicate)

text \<open>
  What an on-hook sample does at the two hook reads of the waiting and dialing loops:
  at line 155 the program goes back to line 122; at line 134 it does so only when the
  dial read of line 132 returned inactive, and enters the dialing loop otherwise.
  Neither step calls the keyboard.
\<close>

lemma hangup_paths:
  assumes "\<not> hook_line smp"
  shows "pc s = L155 \<Longrightarrow> pc (step smp s) = L122 \<and> kbd (step smp s) = kbd s"
    and "pc s = L134 \<Longrightarrow> \<not> dialActive s \<Longrightarrow> pc (step smp s) = L122 \<and> kbd (step smp s) = kbd s"
    and "pc s = L134 \<Longrightarrow> dialActive s \<Longrightarrow> pc (step smp s) = L139 \<and> kbd (step smp s) = kbd s"
  using assms by (simp_all add: step_defs)

section \<open>Claims\<close>

text \<open>
  C1. The handset is off the hook, the dial leaves its rest position, the program
  counts \<open>n\<close> pulses with \<open>n\<close> between 1 and 10, and the dial returns to rest: the
  program calls \<open>kbd.send\<close> once, with the keycode \<open>n + 0x1d\<close>, which is the key of
  the digit \<open>n mod 10\<close>.
\<close>
theorem emitted_digit_matches_pulse_count:
  assumes "pc s = L122" and "cycle_ok c" and "pulses (passes c) = n" and "1 \<le> n" and "n \<le> 10"
  shows "kbd (run (cycle_samples c) s) = kbd s @ [Send (n + 0x1d), ReleaseAll]
         \<and> keycode_digit (n + 0x1d) = Some (n mod 10)"
proof -
  have "kbd (run (cycle_samples c) s) = kbd s @ [Send (n + 0x1d), ReleaseAll]"
    using cycle_run [OF assms(1,2)] assms(3) by (simp add: keystroke_def)
  moreover have "keycode_digit (n + 0x1d) = Some (n mod 10)"
    using assms(4,5) by (cases "n = 10") (simp_all add: keycode_digit_def)
  ultimately show ?thesis by simp
qed

theorem emitted_digit_matches_pulse_count_witness:
  "pc init = L122 \<and> cycle_ok (example_cycle 3) \<and> pulses (passes (example_cycle 3)) = 3
   \<and> kbd (run (cycle_samples (example_cycle 3)) init) = [Send 0x20, ReleaseAll]
   \<and> keycode_digit 0x20 = Some 3"
proof -
  have a: "pc init = L122" by (simp add: init_def)
  have b: "cycle_ok (example_cycle 3)" by (rule example_cycle_ok)
  have c: "pulses (passes (example_cycle 3)) = 3" by (simp add: example_cycle_pulses)
  have d: "kbd init = []" by (simp add: init_def)
  show ?thesis
    using emitted_digit_matches_pulse_count [OF a b c] a b c d by simp
qed


text \<open>
  C2. With \<open>digitCount = 0\<close> at the read of line 146 and the dial line inactive, the
  claim wants no keystroke. The program sends one: from the initial state, handset off
  the hook, dial active, no pulse, dial inactive, the keyboard gets \<open>Send 0x1d\<close>.
\<close>
theorem zero_pulse_toggle_counterexample:
  "pc (run [lines True True True, lines True True True, lines True True True] init) = L146
   \<and> digitCount (run [lines True True True, lines True True True, lines True True True] init) = 0
   \<and> dialActive (run [lines True True True, lines True True True, lines True True True] init)
   \<and> \<not> dial_line (lines True False True)
   \<and> kbd (run [lines True True True, lines True True True, lines True True True,
                lines True False True] init) = [Send 0x1d, ReleaseAll]"
  by (simp add: lines_def init_def step_defs)

text \<open>
  C2, amended. At the read of line 146 with \<open>digitCount = 0\<close> and the dial line
  inactive, the program sends one keystroke, keycode \<open>0x1d\<close>; that keycode is not the
  key of a digit, it is the key of the letter z.
\<close>
theorem zero_pulse_toggle_sends_keycode_1d:
  assumes "pc s = L146" and "digitCount s = 0" and "\<not> dial_line smp"
  shows "kbd (step smp s) = kbd s @ [Send 0x1d, ReleaseAll]
         \<and> keycode_digit 0x1d = None \<and> keycode_char 0x1d = Some CHR ''z''"
  using assms by (simp add: step_defs keycode_digit_def keycode_char_def)

theorem zero_pulse_toggle_sends_keycode_1d_witness:
  "pc (run [lines True True True, lines True True True, lines True True True] init) = L146
   \<and> kbd (step (lines True False True)
              (run [lines True True True, lines True True True, lines True True True] init))
       = [Send 0x1d, ReleaseAll]
   \<and> keycode_digit 0x1d = None"
proof -
  let ?s = "run [lines True True True, lines True True True, lines True True True] init"
  have a: "pc ?s = L146" by (simp add: lines_def init_def step_defs)
  have b: "digitCount ?s = 0" by (simp add: lines_def init_def step_defs)
  have c: "\<not> dial_line (lines True False True)" by (simp add: lines_def)
  have d: "kbd ?s = []" by (simp add: lines_def init_def step_defs)
  show ?thesis
    using zero_pulse_toggle_sends_keycode_1d [OF a b c] a d by simp
qed

text \<open>
  C3. The handset is put back while the program is in the waiting loop: the hook read
  of line 134 returns on-hook in the pass whose dial read (line 132) returned active.
  \<open>break\<close> leaves the waiting loop only, the dialing loop is entered, one pulse is
  counted and the key of digit 1 is sent, with the hook line on-hook all along.
\<close>
theorem hangup_while_waiting_still_emits:
  "pc (run [lines True False True, lines True False True, lines True True True] init) = L134
   \<and> \<not> hook_line (lines False True True)
   \<and> pc (run [lines True False True, lines True False True, lines True True True,
               lines False True True] init) = L139
   \<and> kbd (run [lines True False True, lines True False True, lines True True True,
                lines False True True,
                lines False True False, lines False True True, lines False False True] init)
       = [Send 0x1e, ReleaseAll]"
  by (simp add: lines_def init_def step_defs)

text \<open>
  C4. In a session of completed rotations with the handset off the hook all along,
  the keyboard gets exactly one \<open>Send\<close> and one \<open>ReleaseAll\<close> per rotation, each keycode
  coming from the pulses of its own rotation; and at the entry of the dialing loop of
  any further rotation \<open>digitCount\<close> is 0.
\<close>
theorem one_keystroke_per_rotation:
  assumes "pc s = L122" and "\<forall>c \<in> set cs. cycle_ok c" and "cycle_ok c"
  shows "kbd (run (session_samples cs) s)
           = kbd s @ concat (map (\<lambda>c. [Send (pulses (passes c) + 0x1d), ReleaseAll]) cs)
         \<and> pc (run (session_samples cs @ approach_samples c) s) = L139
         \<and> digitCount (run (session_samples cs @ approach_samples c) s) = 0"
proof -
  note sr = session_run [OF assms(1,2)]
  from sr have pc: "pc (run (session_samples cs) s) = L122"
    by (simp add: session_samples_def)
  from assms(3) have "hook_line (top c)" "waits_ok (first_dial c) (waits c)"
    by (simp_all add: cycle_ok_def)
  from approach_run [OF pc this] sr show ?thesis
    by (simp add: session_samples_def run_append keystroke_def)
qed

theorem one_keystroke_per_rotation_witness:
  "pc init = L122 \<and> cycle_ok (example_cycle 5) \<and> cycle_ok (example_cycle 7)
   \<and> kbd (run (session_samples [example_cycle 5, example_cycle 7]) init)
       = [Send 0x22, ReleaseAll, Send 0x24, ReleaseAll]
   \<and> digitCount (run (session_samples [example_cycle 5, example_cycle 7]
                        @ approach_samples (example_cycle 2)) init) = 0"
proof -
  have a: "pc init = L122" by (simp add: init_def)
  have b: "\<forall>c \<in> set [example_cycle 5, example_cycle 7]. cycle_ok c"
    by (simp add: example_cycle_ok)
  have c: "cycle_ok (example_cycle 2)" by (rule example_cycle_ok)
  have d: "kbd init = []" by (simp add: init_def)
  show ?thesis
    using one_keystroke_per_rotation [OF a b c] a d
    by (simp add: example_cycle_pulses example_cycle_ok)
qed

text \<open>
  C5. In the dialing loop, a low sample at line 139 adds one to \<open>digitCount\<close>; as long
  as the samples stay low, however many there are, the program stays at the read of
  line 144 with the count unchanged; the first high sample takes it to line 146 with
  the count still raised by exactly one.
\<close>
theorem falling_edge_counts_once:
  assumes "pc s = L139" and "\<not> pulse_line lo" and "\<forall>x \<in> set lows. \<not> pulse_line x"
    and "pulse_line hi"
  shows "run (lo # lows) s
           = s\<lparr>pc := L144, digitPulse := False, digitCount := digitCount s + 1\<rparr>
         \<and> run (lo # lows @ [hi]) s
           = s\<lparr>pc := L146, digitPulse := True, digitCount := digitCount s + 1\<rparr>"
proof -
  let ?s = "s\<lparr>pc := L144, digitPulse := False, digitCount := digitCount s + 1\<rparr>"
  have st: "step lo s = ?s" using assms(1,2) by (simp add: step_defs)
  have pc: "pc ?s = L144" by simp
  have stay: "run (lo # lows) s = ?s"
  proof (cases "lows = []")
    case True
    with st show ?thesis by simp
  next
    case False
    from busy_stay [OF pc assms(3) False] st show ?thesis by simp
  qed
  have "run (lo # lows @ [hi]) s = ?s\<lparr>pc := L146, digitPulse := True\<rparr>"
    using busy_run [OF pc assms(3,4)] st by simp
  with stay show ?thesis by simp
qed

theorem falling_edge_counts_once_witness:
  "pc (init\<lparr>pc := L139\<rparr>) = L139
   \<and> \<not> pulse_line (lines True True False)
   \<and> \<not> pulse_line (lines False False False)
   \<and> pulse_line (lines True True True)
   \<and> run (lines True True False # [lines False False False, lines True True False])
         (init\<lparr>pc := L139\<rparr>)
       = init\<lparr>pc := L139\<rparr>
           \<lparr>pc := L144, digitPulse := False, digitCount := digitCount (init\<lparr>pc := L139\<rparr>) + 1\<rparr>
   \<and> run (lines True True False # [lines False False False, lines True True False]
            @ [lines True True True]) (init\<lparr>pc := L139\<rparr>)
       = init\<lparr>pc := L139\<rparr>
           \<lparr>pc := L146, digitPulse := True, digitCount := digitCount (init\<lparr>pc := L139\<rparr>) + 1\<rparr>"
proof -
  have a: "pc (init\<lparr>pc := L139\<rparr>) = L139" by simp
  have b: "\<not> pulse_line (lines True True False)" by (simp add: lines_def)
  have c: "\<forall>x \<in> set [lines False False False, lines True True False]. \<not> pulse_line x"
    by (simp add: lines_def)
  have d: "pulse_line (lines True True True)" by (simp add: lines_def)
  have e: "\<not> pulse_line (lines False False False)" by (simp add: lines_def)
  show ?thesis
    using a b d e falling_edge_counts_once [OF a b c d] by blast
qed

text \<open>
  C6. \<open>hookState\<close> returns the hook sample and leaves it in the LED. A step from any
  of the four locations that call \<open>hookState\<close> (lines 122, 126, 134 and 155: idle,
  waiting, dialing) ends with the LED and \<open>offHook\<close> equal to the hook sample of that
  step; a step from any other location leaves both as they were.
\<close>
theorem status_led_mirrors_hook_sample:
  "fst (hookState smp s) = hook_line smp
   \<and> statusLed (snd (hookState smp s)) = hook_line smp
   \<and> statusLed (step smp s) = (if reads_hook (pc s) then hook_line smp else statusLed s)
   \<and> offHook (step smp s) = (if reads_hook (pc s) then hook_line smp else offHook s)"
  by (cases "pc s") (simp_all add: step_defs)

theorem status_led_mirrors_hook_sample_witness:
  "reads_hook (pc (init\<lparr>pc := L134, statusLed := False\<rparr>))
   \<and> statusLed (step (lines True False False) (init\<lparr>pc := L134, statusLed := False\<rparr>)) = True
   \<and> statusLed (step (lines True False False) (init\<lparr>pc := L144, statusLed := False\<rparr>)) = False"
  using status_led_mirrors_hook_sample [of "lines True False False" "init\<lparr>pc := L134, statusLed := False\<rparr>"]
    status_led_mirrors_hook_sample [of "lines True False False" "init\<lparr>pc := L144, statusLed := False\<rparr>"]
  by (simp add: lines_def)

text \<open>
  C7. The claim has the program send digit 0 on a rotation without pulses, the same
  as for ten pulses. From the initial state the rotation without pulses sends keycode
  \<open>0x1d\<close>, which is no digit key, and the rotation of ten pulses sends \<open>0x27\<close>, the
  key of digit 0: the two differ.
\<close>
theorem zero_pulse_is_not_digit_zero_counterexample:
  "pulses (passes (example_cycle 0)) = 0
   \<and> kbd (run (cycle_samples (example_cycle 0)) init) = [Send 0x1d, ReleaseAll]
   \<and> keycode_digit 0x1d = None
   \<and> kbd (run (cycle_samples (example_cycle 10)) init) = [Send 0x27, ReleaseAll]
   \<and> keycode_digit 0x27 = Some 0
   \<and> kbd (run (cycle_samples (example_cycle 0)) init)
       \<noteq> kbd (run (cycle_samples (example_cycle 10)) init)"
  by (simp add: example_cycle_def cycle_samples_def approach_samples_def waits_samples_def
      rotation_samples_def pass_samples_def pulse_pass_def quiet_pass_def lines_def init_def
      pulses_def pass_pulses_def keycode_digit_def step_defs eval_nat_numeral)

text \<open>
  C7, amended. On a completed rotation without pulses the program sends keycode
  \<open>0x1d\<close>, the key of the letter z and no digit key; on a rotation of ten pulses it
  sends \<open>0x27\<close>, the key of digit 0. The two keystrokes differ.
\<close>
theorem zero_pulse_keystroke_differs_from_ten:
  assumes "pc s = L122" and "cycle_ok c0" and "pulses (passes c0) = 0"
    and "cycle_ok c10" and "pulses (passes c10) = 10"
  shows "kbd (run (cycle_samples c0) s) = kbd s @ [Send 0x1d, ReleaseAll]
         \<and> kbd (run (cycle_samples c10) s) = kbd s @ [Send 0x27, ReleaseAll]
         \<and> keycode_digit 0x1d = None \<and> keycode_char 0x1d = Some CHR ''z''
         \<and> keycode_digit 0x27 = Some 0
         \<and> kbd (run (cycle_samples c0) s) \<noteq> kbd (run (cycle_samples c10) s)"
  using cycle_run [OF assms(1,2)] cycle_run [OF assms(1,4)] assms(3,5)
  by (simp add: keystroke_def keycode_digit_def keycode_char_def)

theorem zero_pulse_keystroke_differs_from_ten_witness:
  "pc init = L122 \<and> cycle_ok (example_cycle 0) \<and> pulses (passes (example_cycle 0)) = 0
   \<and> cycle_ok (example_cycle 10) \<and> pulses (passes (example_cycle 10)) = 10
   \<and> kbd (run (cycle_samples (example_cycle 0)) init) = [Send 0x1d, ReleaseAll]
   \<and> kbd (run (cycle_samples (example_cycle 10)) init) = [Send 0x27, ReleaseAll]"
proof -
  have a: "pc init = L122" by (simp add: init_def)
  have b: "cycle_ok (example_cycle 0)" by (rule example_cycle_ok)
  have c: "pulses (passes (example_cycle 0)) = 0" by (simp add: example_cycle_pulses)
  have d: "cycle_ok (example_cycle 10)" by (rule example_cycle_ok)
  have e: "pulses (passes (example_cycle 10)) = 10" by (simp add: example_cycle_pulses)
  have f: "kbd init = []" by (simp add: init_def)
  show ?thesis
    using zero_pulse_keystroke_differs_from_ten [OF a b c d e] a b c d e f by simp
qed

text \<open>
  C8. In the dialing loop, at the pulse read of line 139 or 144, if the pulse line
  reads low at every read from now on, then after any number of further reads the
  program is still at the read of line 144: nothing was sent, and the hook and dial
  variables and the LED are what they were. The levels of the hook and dial lines
  play no part.
\<close>
theorem stuck_pulse_line_hangs:
  assumes "pc s = L139 \<or> pc s = L144" and "\<forall>i. \<not> pulse_line (env i)"
  shows "pc (run (map env [0..<Suc n]) s) = L144
         \<and> kbd (run (map env [0..<Suc n]) s) = kbd s
         \<and> statusLed (run (map env [0..<Suc n]) s) = statusLed s
         \<and> offHook (run (map env [0..<Suc n]) s) = offHook s
         \<and> dialActive (run (map env [0..<Suc n]) s) = dialActive s"
proof -
  let ?s = "step (env 0) s"
  have tr: "map env [0..<Suc n] = env 0 # map env [Suc 0..<Suc n]"
    by (simp add: upt_conv_Cons del: upt_Suc)
  from assms have s1: "pc ?s = L144" "kbd ?s = kbd s" "statusLed ?s = statusLed s"
    "offHook ?s = offHook s" "dialActive ?s = dialActive s"
    by (auto simp: step_defs)
  show ?thesis
  proof (cases "map env [Suc 0..<Suc n] = []")
    case True
    with tr s1 show ?thesis by simp
  next
    case False
    from assms(2) have "\<forall>x \<in> set (map env [Suc 0..<Suc n]). \<not> pulse_line x" by simp
    from busy_stay [OF s1(1) this False] tr s1 show ?thesis by simp
  qed
qed


theorem stuck_pulse_line_hangs_witness:
  "(pc (init\<lparr>pc := L139\<rparr>) = L139 \<or> pc (init\<lparr>pc := L139\<rparr>) = L144)
   \<and> pc (run (map (\<lambda>i. lines (i < 2) (i < 3) False) [0..<Suc 5]) (init\<lparr>pc := L139\<rparr>)) = L144
   \<and> kbd (run (map (\<lambda>i. lines (i < 2) (i < 3) False) [0..<Suc 5]) (init\<lparr>pc := L139\<rparr>)) = []"
proof -
  have a: "pc (init\<lparr>pc := L139\<rparr>) = L139 \<or> pc (init\<lparr>pc := L139\<rparr>) = L144" by simp
  have b: "\<forall>i. \<not> pulse_line (lines (i < 2) (i < 3) False)" by (simp add: lines_def)
  have c: "kbd (init\<lparr>pc := L139\<rparr>) = []" by (simp add: init_def)
  show ?thesis
    using stuck_pulse_line_hangs [OF a b, of 5] a c by simp
qed

text \<open>
  C9. The only step that calls the keyboard is the dial read of line 146 when the
  dial line is inactive, and the keycode it sends is \<open>digitCount + 0x1d\<close> as it
  stands. For a count of 0 that is \<open>0x1d\<close>, the key of the letter z and no digit key;
  for any count \<open>n\<close> above 10 it is above \<open>0x27\<close> and no digit key; and a rotation
  that counts more than 10 pulses does send such a keycode.
\<close>
theorem keycode_is_raw_offset:
  "kbd (step smp s) = (if pc s = L146 \<and> \<not> dial_line smp
                        then kbd s @ [Send (digitCount s + 0x1d), ReleaseAll] else kbd s)
   \<and> keycode_char (0 + 0x1d) = Some CHR ''z'' \<and> keycode_digit (0 + 0x1d) = None
   \<and> (10 < n \<longrightarrow> 0x27 < n + 0x1d \<and> keycode_digit (n + 0x1d) = None)
   \<and> (pc s = L122 \<and> cycle_ok c \<and> 10 < pulses (passes c) \<longrightarrow>
        kbd (run (cycle_samples c) s) = kbd s @ [Send (pulses (passes c) + 0x1d), ReleaseAll]
        \<and> keycode_digit (pulses (passes c) + 0x1d) = None)"
proof -
  have "kbd (step smp s) = (if pc s = L146 \<and> \<not> dial_line smp
                        then kbd s @ [Send (digitCount s + 0x1d), ReleaseAll] else kbd s)"
    by (cases "pc s") (simp_all add: step_defs)
  moreover have "keycode_char (0 + 0x1d) = Some CHR ''z''" "keycode_digit (0 + 0x1d) = None"
    by (simp_all add: keycode_char_def keycode_digit_def)
  moreover have big: "10 < m \<Longrightarrow> keycode_digit (m + 0x1d) = None" for m
    by (simp add: keycode_digit_def)
  moreover have "kbd (run (cycle_samples c) s) = kbd s @ [Send (pulses (passes c) + 0x1d), ReleaseAll]"
    if "pc s = L122" "cycle_ok c"
    using cycle_run [OF that] by (simp add: keystroke_def)
  ultimately show ?thesis by simp
qed

theorem keycode_is_raw_offset_witness:
  "pc init = L122 \<and> cycle_ok (example_cycle 11) \<and> 10 < pulses (passes (example_cycle 11))
   \<and> kbd (run (cycle_samples (example_cycle 11)) init) = [Send 0x28, ReleaseAll]
   \<and> keycode_digit 0x28 = None"
proof -
  have a: "pc init = L122" by (simp add: init_def)
  have b: "cycle_ok (example_cycle 11)" by (rule example_cycle_ok)
  have c: "pulses (passes (example_cycle 11)) = 11" by (simp add: example_cycle_pulses)
  have d: "kbd init = []" by (simp add: init_def)
  show ?thesis
    using keycode_is_raw_offset [of "lines True True True" init 11 "example_cycle 11"] a b c d
    by simp
qed

text \<open>
  C10. At the read of line 144, a non-empty run of samples whose pulse line is low
  changes nothing but \<open>digitPulse\<close>, whatever the hook and dial lines are in those
  samples: the LED, \<open>offHook\<close>, \<open>dialActive\<close> and the location stay. The first high
  sample moves the program to line 146; a handset on the hook takes effect two reads
  later, at the hook read of line 155.
\<close>
theorem busy_wait_reads_pulse_line_only:
  assumes "pc s = L144" and "tr \<noteq> []" and "\<forall>x \<in> set tr. \<not> pulse_line x"
    and "pulse_line hi" and "\<not> hook_line h"
  shows "run tr s = s\<lparr>digitPulse := False\<rparr>
         \<and> run (tr @ [hi]) s = s\<lparr>pc := L146, digitPulse := True\<rparr>
         \<and> pc (run (tr @ [hi, d, h]) s) = L122
         \<and> \<not> offHook (run (tr @ [hi, d, h]) s)
         \<and> \<not> statusLed (run (tr @ [hi, d, h]) s)"
proof -
  have low: "run tr s = s\<lparr>digitPulse := False\<rparr>"
    by (rule busy_stay [OF assms(1,3,2)])
  have high: "run (tr @ [hi]) s = s\<lparr>pc := L146, digitPulse := True\<rparr>"
    by (rule busy_run [OF assms(1,3,4)])
  have "run (tr @ [hi, d, h]) s = step h (step d (run (tr @ [hi]) s))"
    using run_append [of "tr @ [hi]" "[d, h]" s] by simp
  with high assms(5) have "pc (run (tr @ [hi, d, h]) s) = L122"
    "\<not> offHook (run (tr @ [hi, d, h]) s)" "\<not> statusLed (run (tr @ [hi, d, h]) s)"
    by (simp_all add: step_defs)
  with low high show ?thesis by simp
qed

theorem busy_wait_reads_pulse_line_only_witness:
  "pc (run [lines True True True, lines True True True, lines True True False] init) = L144
   \<and> \<not> pulse_line (lines False False False)
   \<and> statusLed (run [lines False False False, lines False True False]
         (run [lines True True True, lines True True True, lines True True False] init))
   \<and> pc (run ([lines False False False, lines False True False]
              @ [lines False True True, lines False True True, lines False True True])
         (run [lines True True True, lines True True True, lines True True False] init)) = L122"
proof -
  let ?s = "run [lines True True True, lines True True True, lines True True False] init"
  have a: "pc ?s = L144" by (simp add: lines_def init_def step_defs)
  have b: "[lines False False False, lines False True False] \<noteq> []" by simp
  have c: "\<forall>x \<in> set [lines False False False, lines False True False]. \<not> pulse_line x"
    by (simp add: lines_def)
  have d: "pulse_line (lines False True True)" by (simp add: lines_def)
  have e: "\<not> hook_line (lines False True True)" by (simp add: lines_def)
  have f: "statusLed ?s" by (simp add: lines_def init_def step_defs)
  have g: "\<not> pulse_line (lines False False False)" by (simp add: lines_def)
  from busy_wait_reads_pulse_line_only [OF a b c d e, of "lines False True True"]
  have "run [lines False False False, lines False True False] ?s = ?s\<lparr>digitPulse := False\<rparr>"
    and "pc (run ([lines False False False, lines False True False]
              @ [lines False True True, lines False True True, lines False True True]) ?s) = L122"
    by blast+
  with a f g show ?thesis by simp
qed

end
